theory Spec2Isabelle
  imports Complex_Main "HOL-Library.Stream" "HOL-Library.AList"
begin

section \<open>Python values, errors and containers\<close>

text \<open>
  The generator of \<^verbatim>\<open>data_generator.py\<close> handles two kinds of Python values in
  the fields of a record: a \<^verbatim>\<open>str\<close> and \<^verbatim>\<open>None\<close>. One \<^typ>\<open>char\<close> stands
  for one character of a Python string.
\<close>

datatype pyval = PyNone | PyStr string

text \<open>
  The exceptions that the statements of the source can raise: \<^verbatim>\<open>IndexError\<close> (a list
  subscript out of range, \<^verbatim>\<open>random.choice\<close> on an empty sequence), \<^verbatim>\<open>KeyError\<close>
  (a dictionary subscript with a missing key) and \<^verbatim>\<open>ValueError\<close>
  (\<^verbatim>\<open>random.randint\<close> on an empty range). \<open>InvalidConfiguration\<close> is the error kind
  that the specification names; no statement of the source raises it.
\<close>

datatype error = IndexError | KeyError | ValueError | InvalidConfiguration

text \<open>Truthiness, as \<^verbatim>\<open>not text\<close> reads it: \<^verbatim>\<open>None\<close> and \<^verbatim>\<open>""\<close> are falsy.\<close>

definition falsy :: "pyval \<Rightarrow> bool" where
  "falsy v = (v = PyNone \<or> v = PyStr [])"

subsection \<open>Lists\<close>

text \<open>
  A list subscript \<^verbatim>\<open>xs[i]\<close>: a negative index counts from the end, and an index
  outside \<open>-len \<le> i < len\<close> raises \<^verbatim>\<open>IndexError\<close>.
\<close>

definition list_index :: "'a list \<Rightarrow> int \<Rightarrow> nat option" where
  "list_index xs i =
     (if 0 \<le> i \<and> i < int (length xs) then Some (nat i)
      else if - int (length xs) \<le> i \<and> i < 0 then Some (nat (int (length xs) + i))
      else None)"

definition list_getitem :: "'a list \<Rightarrow> int \<Rightarrow> error + 'a" where
  "list_getitem xs i =
     (case list_index xs i of None \<Rightarrow> Inl IndexError | Some j \<Rightarrow> Inr (xs ! j))"

definition list_setitem :: "'a list \<Rightarrow> int \<Rightarrow> 'a \<Rightarrow> error + 'a list" where
  "list_setitem xs i v =
     (case list_index xs i of None \<Rightarrow> Inl IndexError | Some j \<Rightarrow> Inr (xs[j := v]))"

definition list_delitem :: "'a list \<Rightarrow> int \<Rightarrow> error + 'a list" where
  "list_delitem xs i =
     (case list_index xs i of
        None \<Rightarrow> Inl IndexError
      | Some j \<Rightarrow> Inr (take j xs @ drop (Suc j) xs))"

text \<open>\<^verbatim>\<open>xs.insert(i, v)\<close> never raises: the position is clamped to \<open>0 .. len\<close>.\<close>

definition list_insert :: "'a list \<Rightarrow> int \<Rightarrow> 'a \<Rightarrow> 'a list" where
  "list_insert xs i v =
     (let n = int (length xs);
          j = (if i < 0 then max 0 (n + i) else min i n)
      in take (nat j) xs @ v # drop (nat j) xs)"

text \<open>The slice \<^verbatim>\<open>xs[:n]\<close>; a negative \<open>n\<close> counts from the end.\<close>

definition slice_upto :: "'a list \<Rightarrow> int \<Rightarrow> 'a list" where
  "slice_upto xs n =
     (if n < 0 then take (nat (int (length xs) + n)) xs else take (nat n) xs)"

subsection \<open>Dictionaries\<close>

text \<open>
  A record of the dataset is a Python \<^verbatim>\<open>dict\<close> from field names to values. A
  \<^verbatim>\<open>dict\<close> keeps its keys in insertion order, so it is an association list with
  distinct keys: assigning to a key that is present keeps its place, assigning to a new
  key appends it, which is what \<^const>\<open>AList.update\<close> does.
\<close>

type_synonym row = "(string \<times> pyval) list"

definition dict_getitem :: "row \<Rightarrow> string \<Rightarrow> error + pyval" where
  "dict_getitem d k = (case map_of d k of None \<Rightarrow> Inl KeyError | Some v \<Rightarrow> Inr v)"

definition dict_setitem :: "row \<Rightarrow> string \<Rightarrow> pyval \<Rightarrow> row" where
  "dict_setitem d k v = AList.update k v d"

text \<open>\<^verbatim>\<open>d.update(other)\<close> assigns the items of \<open>other\<close> in their order.\<close>

definition dict_update :: "row \<Rightarrow> row \<Rightarrow> row" where
  "dict_update d other = fold (\<lambda>(k, v) acc. dict_setitem acc k v) other d"

text \<open>\<^verbatim>\<open>s.replace('\n', ', ')\<close>: every newline becomes a comma and a space.\<close>

definition replace_newline :: "string \<Rightarrow> string" where
  "replace_newline s = concat (map (\<lambda>c. if c = CHR 0x0A then '', '' else [c]) s)"

section \<open>The random module\<close>

text \<open>
  The state of Python's global generator is the sequence of raw outcomes it is going to
  produce; each call of \<^verbatim>\<open>random.random\<close>, \<^verbatim>\<open>random.choice\<close> or
  \<^verbatim>\<open>random.randint\<close> consumes the head. Every sequence is a possible state, so a
  statement about all states covers every behaviour of the real generator.

  \<^verbatim>\<open>random.random()\<close> returns a float \<open>k / 2^53\<close> with \<open>0 \<le> k < 2^53\<close>. On these
  values the comparisons of the source with the doubles \<^verbatim>\<open>0.3\<close> and \<^verbatim>\<open>0.1\<close> agree
  with the comparisons with the rationals \<open>3/10\<close> and \<open>1/10\<close>: the double \<^verbatim>\<open>0.3\<close> is
  \<open>5404319552844595 / 2^54\<close> and the double \<^verbatim>\<open>0.1\<close> is \<open>3602879701896397 / 2^55\<close>,
  and no multiple of \<open>1 / 2^53\<close> lies between either double and its decimal value.
\<close>

type_synonym rng = "nat stream"

definition random_random :: "rng \<Rightarrow> rat \<times> rng" where
  "random_random g = (of_nat (shd g mod 2 ^ 53) / 2 ^ 53, stl g)"

text \<open>\<^verbatim>\<open>random.choice(seq)\<close> raises \<^verbatim>\<open>IndexError\<close> on an empty sequence.\<close>

definition random_choice :: "'a list \<Rightarrow> rng \<Rightarrow> error + ('a \<times> rng)" where
  "random_choice seq g =
     (if seq = [] then Inl IndexError
      else Inr (seq ! (shd g mod length seq), stl g))"

text \<open>\<^verbatim>\<open>random.randint(a, b)\<close> returns \<open>a \<le> n \<le> b\<close> and raises \<^verbatim>\<open>ValueError\<close> when \<open>b < a\<close>.\<close>

definition random_randint :: "int \<Rightarrow> int \<Rightarrow> rng \<Rightarrow> error + (int \<times> rng)" where
  "random_randint a b g =
     (if b < a then Inl ValueError
      else Inr (a + int (shd g mod nat (b - a + 1)), stl g))"

definition ascii_letters :: string where
  "ascii_letters = ''abcdefghijklmnopqrstuvwxyzABCDEFGHIJKLMNOPQRSTUVWXYZ''"

section \<open>The libraries the generator is given\<close>

text \<open>
  What the source takes from outside: the seeding of the global generator
  (\<^verbatim>\<open>random.seed\<close>), and the Faker provider, an object with a hidden state of type
  \<open>'f\<close>. \<^verbatim>\<open>Faker.seed(seed)\<close> sets that state from the seed, and each of
  \<^verbatim>\<open>fake.uuid4()\<close>, \<^verbatim>\<open>fake.name()\<close>, \<^verbatim>\<open>fake.address()\<close>, \<^verbatim>\<open>fake.city()\<close> and
  \<^verbatim>\<open>str(fake.date_of_birth())\<close> returns a string and the next state.
\<close>

record 'f library =
  random_seed :: "int \<Rightarrow> rng"
  Faker_seed :: "int \<Rightarrow> 'f"
  fake_uuid4 :: "'f \<Rightarrow> string \<times> 'f"
  fake_name :: "'f \<Rightarrow> string \<times> 'f"
  fake_address :: "'f \<Rightarrow> string \<times> 'f"
  fake_city :: "'f \<Rightarrow> string \<times> 'f"
  fake_date_of_birth :: "'f \<Rightarrow> string \<times> 'f"

text \<open>
  The contract of \<^verbatim>\<open>uuid4\<close>: an identifier is fresh. \<open>issued f\<close> is the set of the
  identifiers handed out before the provider reached the state \<open>f\<close>; \<^verbatim>\<open>uuid4\<close> returns
  an identifier outside it and records it, and no method forgets an identifier.
\<close>

definition fresh_uuids :: "'f library \<Rightarrow> ('f \<Rightarrow> string set) \<Rightarrow> bool" where
  "fresh_uuids lib issued \<longleftrightarrow>
     (\<forall>f. fst (fake_uuid4 lib f) \<notin> issued f) \<and>
     (\<forall>f. insert (fst (fake_uuid4 lib f)) (issued f) \<subseteq> issued (snd (fake_uuid4 lib f))) \<and>
     (\<forall>f. issued f \<subseteq> issued (snd (fake_name lib f))) \<and>
     (\<forall>f. issued f \<subseteq> issued (snd (fake_address lib f))) \<and>
     (\<forall>f. issued f \<subseteq> issued (snd (fake_city lib f))) \<and>
     (\<forall>f. issued f \<subseteq> issued (snd (fake_date_of_birth lib f)))"

section \<open>The field corruptor\<close>

text \<open>
  \<^verbatim>\<open>perturb(text)\<close>, lines 41 to 68. The \<^verbatim>\<open>or\<close> of line 55 is short-circuit: a
  falsy text returns before \<^verbatim>\<open>random.random()\<close> is called. The tuple assignment of
  line 67 reads \<^verbatim>\<open>chars[idx2]\<close>, then \<^verbatim>\<open>chars[idx]\<close>, then stores into
  \<^verbatim>\<open>chars[idx]\<close>, then into \<^verbatim>\<open>chars[idx2]\<close>.
\<close>

definition perturb :: "pyval \<Rightarrow> rng \<Rightarrow> error + (pyval \<times> rng)" where
  "perturb text g =
     (if falsy text then Inr (text, g)
      else case random_random g of (r, g1) \<Rightarrow>
        if r > 3 / 10 then Inr (text, g1)
        else (case text of
          PyNone \<Rightarrow> Inr (text, g1)
        | PyStr chars \<Rightarrow>
           (case random_choice [''del'', ''ins'', ''rep'', ''swap''] g1 of
              Inl e \<Rightarrow> Inl e
            | Inr (op, g2) \<Rightarrow>
           (case random_randint 0 (int (length chars) - 1) g2 of
              Inl e \<Rightarrow> Inl e
            | Inr (idx, g3) \<Rightarrow>
              if op = ''del'' then
                (case list_delitem chars idx of
                   Inl e \<Rightarrow> Inl e
                 | Inr chars' \<Rightarrow> Inr (PyStr chars', g3))
              else if op = ''ins'' then
                (case random_choice ascii_letters g3 of
                   Inl e \<Rightarrow> Inl e
                 | Inr (c, g4) \<Rightarrow> Inr (PyStr (list_insert chars idx c), g4))
              else if op = ''rep'' then
                (case random_choice ascii_letters g3 of
                   Inl e \<Rightarrow> Inl e
                 | Inr (c, g4) \<Rightarrow>
                    (case list_setitem chars idx c of
                       Inl e \<Rightarrow> Inl e
                     | Inr chars' \<Rightarrow> Inr (PyStr chars', g4)))
              else if op = ''swap'' \<and> length chars > 1 then
                (let idx2 = (if idx < int (length chars) - 1 then idx + 1 else idx - 1) in
                 case list_getitem chars idx2 of
                   Inl e \<Rightarrow> Inl e
                 | Inr a \<Rightarrow>
                 (case list_getitem chars idx of
                   Inl e \<Rightarrow> Inl e
                 | Inr b \<Rightarrow>
                 (case list_setitem chars idx a of
                   Inl e \<Rightarrow> Inl e
                 | Inr chars1 \<Rightarrow>
                 (case list_setitem chars1 idx2 b of
                   Inl e \<Rightarrow> Inl e
                 | Inr chars2 \<Rightarrow> Inr (PyStr chars2, g3)))))
              else Inr (PyStr chars, g3)))))"

section \<open>The record generator\<close>

text \<open>
  The state that the generator threads through its calls: the state of the provider and
  the state of the global generator.
\<close>

type_synonym 'f world = "'f \<times> rng"

text \<open>
  The loop of lines 88 to 90 and of lines 112 to 114: for each of the given fields in
  turn, one draw, and the field is set to \<^verbatim>\<open>None\<close> when the draw is below \<open>0.1\<close>.
\<close>

fun dropout :: "string list \<Rightarrow> row \<Rightarrow> rng \<Rightarrow> row \<times> rng" where
  "dropout [] record g = (record, g)"
| "dropout (field # rest) record g =
     (case random_random g of (r, g') \<Rightarrow>
        dropout rest (if r < 1 / 10 then dict_setitem record field PyNone else record) g')"

text \<open>One iteration of the first loop, lines 75 to 91; the caller appends the record.\<close>

fun unique_record :: "'f library \<Rightarrow> 'f world \<Rightarrow> row \<times> 'f world" where
  "unique_record lib (f, g) =
     (case fake_uuid4 lib f of (uid, f1) \<Rightarrow>
      case fake_name lib f1 of (nm, f2) \<Rightarrow>
      case fake_address lib f2 of (addr, f3) \<Rightarrow>
      case fake_city lib f3 of (cty, f4) \<Rightarrow>
      case fake_date_of_birth lib f4 of (dob, f5) \<Rightarrow>
      case dropout [''address'', ''city'', ''date_of_birth'']
             [(''id'', PyStr uid),
              (''original_id'', PyStr uid),
              (''name'', PyStr nm),
              (''address'', PyStr (replace_newline addr)),
              (''city'', PyStr cty),
              (''date_of_birth'', PyStr dob)] g
      of (record, g') \<Rightarrow> (record, (f5, g')))"

text \<open>The first loop, \<^verbatim>\<open>for _ in range(n_unique)\<close>, with its number of iterations.\<close>

fun unique_loop :: "'f library \<Rightarrow> nat \<Rightarrow> row list \<Rightarrow> 'f world \<Rightarrow> row list \<times> 'f world" where
  "unique_loop lib 0 data w = (data, w)"
| "unique_loop lib (Suc k) data w =
     (case unique_record lib w of (record, w') \<Rightarrow> unique_loop lib k (data @ [record]) w')"

text \<open>
  Lines 99 to 108: the copy of the sampled record and its \<^verbatim>\<open>update\<close>. The items of the
  dictionary display are evaluated in their order: \<^verbatim>\<open>fake.uuid4()\<close>, the corruption of
  the name, then the conditional expression on the address. The corruptor is a parameter
  here; the generator passes \<^const>\<open>perturb\<close>.
\<close>

fun duplicate_update ::
  "(pyval \<Rightarrow> rng \<Rightarrow> error + (pyval \<times> rng)) \<Rightarrow> 'f library \<Rightarrow> row \<Rightarrow> 'f world
     \<Rightarrow> error + (row \<times> 'f world)" where
  "duplicate_update corrupt lib orig (f, g) =
     (let dup = orig in
      case fake_uuid4 lib f of (uid, f1) \<Rightarrow>
      (case dict_getitem orig ''name'' of
        Inl e \<Rightarrow> Inl e
      | Inr nm \<Rightarrow>
      (case corrupt nm g of
        Inl e \<Rightarrow> Inl e
      | Inr (nm', g1) \<Rightarrow>
      (case dict_getitem orig ''address'' of
        Inl e \<Rightarrow> Inl e
      | Inr addr \<Rightarrow>
      (case (if \<not> falsy addr then corrupt addr g1 else Inr (PyNone, g1)) of
        Inl e \<Rightarrow> Inl e
      | Inr (addr', g2) \<Rightarrow>
          Inr (dict_update dup [(''id'', PyStr uid), (''name'', nm'), (''address'', addr')],
               (f1, g2)))))))"

text \<open>One iteration of the second loop, lines 98 to 114; the caller appends the record.\<close>

fun duplicate_record ::
  "'f library \<Rightarrow> int \<Rightarrow> row list \<Rightarrow> 'f world \<Rightarrow> error + (row \<times> 'f world)" where
  "duplicate_record lib n_unique data (f, g) =
     (case random_choice (slice_upto data n_unique) g of
        Inl e \<Rightarrow> Inl e
      | Inr (orig, g1) \<Rightarrow>
      (case duplicate_update perturb lib orig (f, g1) of
        Inl e \<Rightarrow> Inl e
      | Inr (dup, (f', g2)) \<Rightarrow>
      (case dropout [''address'', ''city'', ''date_of_birth''] dup g2 of
        (dup', g3) \<Rightarrow> Inr (dup', (f', g3)))))"

fun duplicate_loop ::
  "'f library \<Rightarrow> int \<Rightarrow> nat \<Rightarrow> row list \<Rightarrow> 'f world \<Rightarrow> error + (row list \<times> 'f world)" where
  "duplicate_loop lib n_unique 0 data w = Inr (data, w)"
| "duplicate_loop lib n_unique (Suc k) data w =
     (case duplicate_record lib n_unique data w of
        Inl e \<Rightarrow> Inl e
      | Inr (dup, w') \<Rightarrow> duplicate_loop lib n_unique k (data @ [dup]) w')"

text \<open>
  \<^verbatim>\<open>generate_data(n_unique, n_duplicates, seed)\<close>. The last argument is the state in
  which the call finds the provider and the global generator; lines 38 and 39 overwrite
  both from the seed. \<^verbatim>\<open>range(n)\<close> is empty for \<open>n \<le> 0\<close>. The result is the list of
  the rows of the data frame, which \<^verbatim>\<open>pd.DataFrame(data)\<close> builds one per record, and
  the state the call leaves behind.
\<close>

definition generate_data ::
  "'f library \<Rightarrow> int \<Rightarrow> int \<Rightarrow> int \<Rightarrow> 'f world \<Rightarrow> error + (row list \<times> 'f world)" where
  "generate_data lib n_unique n_duplicates seed w =
     (case unique_loop lib (nat n_unique) [] (Faker_seed lib seed, random_seed lib seed) of
        (data, w1) \<Rightarrow> duplicate_loop lib n_unique (nat n_duplicates) data w1)"


section \<open>Edits of a string\<close>

text \<open>
  \<open>one_edit t t'\<close>: the string \<open>t'\<close> is \<open>t\<close>, or \<open>t\<close> after one operation at one position
  \<open>i\<close>: the character at \<open>i\<close> deleted, a letter inserted before it, the character
  replaced by a letter, or the character exchanged with its right neighbour.
\<close>

definition one_edit :: "string \<Rightarrow> string \<Rightarrow> bool" where
  "one_edit t t' \<longleftrightarrow>
     t' = t \<or>
     (\<exists>i\<in>{..<length t}.
        t' = take i t @ drop (Suc i) t \<or>
        (\<exists>c\<in>set ascii_letters. t' = take i t @ c # drop i t \<or> t' = t[i := c]) \<or>
        (Suc i < length t \<and> t' = t[i := t ! Suc i, Suc i := t ! i]))"

section \<open>Invariants of the rows\<close>

text \<open>
  A row of the first loop carries one identifier under \<^verbatim>\<open>id\<close> and \<^verbatim>\<open>original_id\<close>, a
  string under \<^verbatim>\<open>name\<close> and the key \<^verbatim>\<open>address\<close>; every row carries identifiers under
  \<^verbatim>\<open>id\<close> and \<^verbatim>\<open>original_id\<close>, a string under \<^verbatim>\<open>name\<close> and the key \<^verbatim>\<open>address\<close>.
\<close>

definition unique_row :: "row \<Rightarrow> bool" where
  "unique_row r \<longleftrightarrow>
     (\<exists>u. map_of r ''id'' = Some (PyStr u) \<and> map_of r ''original_id'' = Some (PyStr u)) \<and>
     (\<exists>s. map_of r ''name'' = Some (PyStr s)) \<and>
     map_of r ''address'' \<noteq> None"

definition labelled_row :: "row \<Rightarrow> bool" where
  "labelled_row r \<longleftrightarrow>
     (\<exists>u. map_of r ''id'' = Some (PyStr u)) \<and>
     (\<exists>u. map_of r ''original_id'' = Some (PyStr u)) \<and>
     (\<exists>s. map_of r ''name'' = Some (PyStr s)) \<and>
     map_of r ''address'' \<noteq> None"

section \<open>A concrete library\<close>

text \<open>
  A provider that counts: its state is the number of identifiers handed out, and the
  \<open>k\<close>-th identifier is \<^verbatim>\<open>id-\<close> followed by \<open>k\<close> letters. The global generator starts,
  for every seed, with fourteen fixed raw outcomes (\<open>4503599627370496\<close> is \<open>2^52\<close>,
  the draw \<open>0.5\<close>) and goes on with the absolute value of the seed.
\<close>

definition demo :: "nat library" where
  "demo = \<lparr> random_seed = (\<lambda>seed.
              [4503599627370496, 4503599627370496, 4503599627370496,
               4503599627370496, 0, 4503599627370496,
               1, 0, 3, 2, 4503599627370496,
               4503599627370496, 4503599627370496, 0] @- sconst (nat \<bar>seed\<bar>)),
            Faker_seed = (\<lambda>seed. 0),
            fake_uuid4 = (\<lambda>k. (''id-'' @ replicate k CHR ''x'', Suc k)),
            fake_name = (\<lambda>k. (''Ann Lee'', k)),
            fake_address = (\<lambda>k. (''1 Main St'' @ [CHR 0x0A] @ ''Springfield'', k)),
            fake_city = (\<lambda>k. (''Springfield'', k)),
            fake_date_of_birth = (\<lambda>k. (''1990-01-01'', k)) \<rparr>"

definition demo_issued :: "nat \<Rightarrow> string set" where
  "demo_issued k = (\<lambda>i. ''id-'' @ replicate i CHR ''x'') ` {..<k}"

text \<open>
  The dataset of \<^verbatim>\<open>generate_data(2, 1, 42)\<close> with this library: two unique rows, the
  second without a city, and a duplicate of the second with two letters of the name
  exchanged and the date of birth dropped.
\<close>

definition demo_rows :: "row list" where
  "demo_rows =
     [[(''id'', PyStr ''id-''), (''original_id'', PyStr ''id-''),
       (''name'', PyStr ''Ann Lee''), (''address'', PyStr ''1 Main St, Springfield''),
       (''city'', PyStr ''Springfield''), (''date_of_birth'', PyStr ''1990-01-01'')],
      [(''id'', PyStr ''id-x''), (''original_id'', PyStr ''id-x''),
       (''name'', PyStr ''Ann Lee''), (''address'', PyStr ''1 Main St, Springfield''),
       (''city'', PyNone), (''date_of_birth'', PyStr ''1990-01-01'')],
      [(''id'', PyStr ''id-xx''), (''original_id'', PyStr ''id-x''),
       (''name'', PyStr ''An nLee''), (''address'', PyStr ''1 Main St, Springfield''),
       (''city'', PyNone), (''date_of_birth'', PyNone)]]"

text \<open>
  A corruptor that raises when it is given \<^verbatim>\<open>None\<close>, and is \<^const>\<open>perturb\<close> otherwise.
\<close>

definition strict_perturb :: "pyval \<Rightarrow> rng \<Rightarrow> error + (pyval \<times> rng)" where
  "strict_perturb v g = (if v = PyNone then Inl ValueError else perturb v g)"

section \<open>The primitives\<close>

lemma random_random_snd: "snd (random_random g) = stl g"
  by (simp add: random_random_def)

lemma random_random_eq: "random_random g = (fst (random_random g), stl g)"
  by (simp add: random_random_def)

lemma random_choice_Inr:
  "seq \<noteq> [] \<Longrightarrow> random_choice seq g = Inr (seq ! (shd g mod length seq), stl g)"
  by (simp add: random_choice_def)

lemma random_choice_Nil: "random_choice [] g = Inl IndexError"
  by (simp add: random_choice_def)

lemma random_choice_mem:
  "random_choice seq g = Inr (x, g') \<Longrightarrow> x \<in> set seq \<and> g' = stl g"
  by (auto simp: random_choice_def split: if_splits)

lemma random_randint_index:
  "xs \<noteq> [] \<Longrightarrow>
   random_randint 0 (int (length xs) - 1) g = Inr (int (shd g mod length xs), stl g)"
  by (simp add: random_randint_def)

lemma list_index_nat: "i < length xs \<Longrightarrow> list_index xs (int i) = Some i"
  by (simp add: list_index_def)

lemma list_getitem_nat: "i < length xs \<Longrightarrow> list_getitem xs (int i) = Inr (xs ! i)"
  by (simp add: list_getitem_def list_index_nat)

lemma list_setitem_nat: "i < length xs \<Longrightarrow> list_setitem xs (int i) v = Inr (xs[i := v])"
  by (simp add: list_setitem_def list_index_nat)

lemma list_delitem_nat:
  "i < length xs \<Longrightarrow> list_delitem xs (int i) = Inr (take i xs @ drop (Suc i) xs)"
  by (simp add: list_delitem_def list_index_nat)

lemma list_insert_nat:
  "i \<le> length xs \<Longrightarrow> list_insert xs (int i) v = take i xs @ v # drop i xs"
  by (simp add: list_insert_def)

lemma list_getitem_succ: "Suc i < length xs \<Longrightarrow> list_getitem xs (int i + 1) = Inr (xs ! Suc i)"
  using list_getitem_nat[of "Suc i" xs] by (simp add: add.commute)

lemma list_getitem_pred:
  "0 < i \<Longrightarrow> i < length xs \<Longrightarrow> list_getitem xs (int i - 1) = Inr (xs ! (i - 1))"
  using list_getitem_nat[of "i - 1" xs] by (simp add: of_nat_diff)

lemma list_setitem_succ:
  "Suc i < length xs \<Longrightarrow> list_setitem xs (int i + 1) v = Inr (xs[Suc i := v])"
  using list_setitem_nat[of "Suc i" xs] by (simp add: add.commute)

lemma list_setitem_pred:
  "0 < i \<Longrightarrow> i < length xs \<Longrightarrow> list_setitem xs (int i - 1) v = Inr (xs[i - 1 := v])"
  using list_setitem_nat[of "i - 1" xs] by (simp add: of_nat_diff)

lemma perturb_falsy: "falsy text \<Longrightarrow> perturb text g = Inr (text, g)"
  by (simp add: perturb_def)

lemma perturb_pass:
  "\<not> falsy text \<Longrightarrow> 3 / 10 < fst (random_random g) \<Longrightarrow> perturb text g = Inr (text, stl g)"
  by (simp add: perturb_def random_random_def)

text \<open>The four operations, as functions of the raw draws.\<close>

lemma perturb_corrupt:
  assumes t: "t \<noteq> []" and r: "\<not> 3 / 10 < fst (random_random g)"
  shows "perturb (PyStr t) g =
     (let op = [''del'', ''ins'', ''rep'', ''swap''] ! (shd (stl g) mod 4);
          g3 = stl (stl (stl g));
          i = shd (stl (stl g)) mod length t;
          c = ascii_letters ! (shd g3 mod length ascii_letters);
          j = (if Suc i < length t then Suc i else i - 1)
      in if op = ''del'' then Inr (PyStr (take i t @ drop (Suc i) t), g3)
         else if op = ''ins'' then Inr (PyStr (take i t @ c # drop i t), stl g3)
         else if op = ''rep'' then Inr (PyStr (t[i := c]), stl g3)
         else if op = ''swap'' \<and> 1 < length t then Inr (PyStr (t[i := t ! j, j := t ! i]), g3)
         else Inr (PyStr t, g3))"
proof -
  let ?i = "shd (stl (stl g)) mod length t"
  have i: "?i < length t" using t by simp
  have al: "ascii_letters \<noteq> []" by (simp add: ascii_letters_def)
  have nf: "\<not> falsy (PyStr t)" using t by (simp add: falsy_def)
  have rr: "random_random g = (fst (random_random g), stl g)" by (rule random_random_eq)
  have sw: "1 < length t \<Longrightarrow>
      (if int ?i < int (length t) - 1 then int ?i + 1 else int ?i - 1)
        = int (if Suc ?i < length t then Suc ?i else ?i - 1)"
    using i by (auto simp: of_nat_diff)
  have j: "1 < length t \<Longrightarrow> (if Suc ?i < length t then Suc ?i else ?i - 1) < length t"
    using i by auto
  have k: "shd (stl g) mod 4 < 4" by simp
  then consider "shd (stl g) mod 4 = 0" | "shd (stl g) mod 4 = 1" | "shd (stl g) mod 4 = 2"
    | "shd (stl g) mod 4 = 3" by linarith
  then show ?thesis
  proof cases
    case 1
    then show ?thesis using nf r i t
      by (simp add: perturb_def random_random_def random_choice_def random_randint_index
          list_delitem_nat Let_def)
  next
    case 2
    then show ?thesis using nf r i t al
      by (simp add: perturb_def random_random_def random_choice_def random_randint_index
          list_insert_nat Let_def)
  next
    case 3
    then show ?thesis using nf r i t al
      by (simp add: perturb_def random_random_def random_choice_def random_randint_index
          list_setitem_nat Let_def)
  next
    case 4
    show ?thesis
    proof (cases "1 < length t")
      case True
      show ?thesis
      proof (cases "Suc ?i < length t")
        case s: True
        then have lt: "int ?i < int (length t) - 1" by linarith
        show ?thesis using 4 nf r i t True s lt
          by (simp add: perturb_def random_random_def random_choice_def random_randint_index
              Let_def list_getitem_nat list_setitem_nat list_getitem_succ list_setitem_succ)
      next
        case s: False
        then have lt: "\<not> int ?i < int (length t) - 1" by linarith
        have pos: "0 < ?i" using s True by linarith
        show ?thesis using 4 nf r i t True s lt pos
          by (simp add: perturb_def random_random_def random_choice_def random_randint_index
              Let_def list_getitem_nat list_setitem_nat list_getitem_pred list_setitem_pred)
      qed
    next
      case False
      then show ?thesis using 4 nf r i t
        by (simp add: perturb_def random_random_def random_choice_def random_randint_index Let_def)
    qed
  qed
qed


lemma perturb_result:
  "\<exists>v g'. perturb x g = Inr (v, g') \<and> (x = PyNone \<longrightarrow> v = PyNone) \<and>
      (\<forall>s. x = PyStr s \<longrightarrow> (\<exists>s'. v = PyStr s'))"
proof (cases "falsy x")
  case True
  then show ?thesis by (auto simp: perturb_falsy)
next
  case nf: False
  then obtain t where x: "x = PyStr t" and t: "t \<noteq> []"
    by (cases x) (auto simp: falsy_def)
  show ?thesis
  proof (cases "3 / 10 < fst (random_random g)")
    case True
    then show ?thesis using nf x by (simp add: perturb_pass)
  next
    case False
    show ?thesis unfolding x perturb_corrupt[OF t False] by (simp add: Let_def)
  qed
qed

lemma swap_drawn:
  assumes t: "t \<noteq> []"
    and rr: "random_random g = (r, g1)" and r: "\<not> 3 / 10 < r"
    and ch: "random_choice [''del'', ''ins'', ''rep'', ''swap''] g1 = Inr (''swap'', g2)"
    and ri: "random_randint 0 (int (length t) - 1) g2 = Inr (idx, g3)"
  shows "idx = int (shd (stl (stl g)) mod length t) \<and> g3 = stl (stl (stl g)) \<and>
    perturb (PyStr t) g =
      (if 1 < length t
       then Inr (PyStr (t[shd (stl (stl g)) mod length t :=
                  t ! (if Suc (shd (stl (stl g)) mod length t) < length t
                       then Suc (shd (stl (stl g)) mod length t)
                       else shd (stl (stl g)) mod length t - 1),
                (if Suc (shd (stl (stl g)) mod length t) < length t
                       then Suc (shd (stl (stl g)) mod length t)
                       else shd (stl (stl g)) mod length t - 1) :=
                  t ! (shd (stl (stl g)) mod length t)]), g3)
       else Inr (PyStr t, g3))"
proof -
  have r': "\<not> 3 / 10 < fst (random_random g)" using rr r by simp
  have g1: "g1 = stl g" using rr random_random_snd[of g] by simp
  have ne: "[''del'', ''ins'', ''rep'', ''swap''] \<noteq> []" by simp
  have len: "length [''del'', ''ins'', ''rep'', ''swap''] = 4" by simp
  have ch': "Inr ([''del'', ''ins'', ''rep'', ''swap''] ! (shd g1 mod 4), stl g1)
      = (Inr (''swap'', g2) :: error + string \<times> rng)"
    using ch unfolding random_choice_Inr[OF ne] len .
  then have op: "[''del'', ''ins'', ''rep'', ''swap''] ! (shd (stl g) mod 4) = ''swap''"
    and g2: "g2 = stl (stl g)" unfolding g1 by simp_all
  have ri': "Inr (int (shd g2 mod length t), stl g2) = (Inr (idx, g3) :: error + int \<times> rng)"
    using ri unfolding random_randint_index[OF t] .
  then have idx: "idx = int (shd (stl (stl g)) mod length t)" and g3: "g3 = stl (stl (stl g))"
    unfolding g2 by simp_all
  have ops: "''swap'' \<noteq> ''del''" "''swap'' \<noteq> ''ins''" "''swap'' \<noteq> ''rep''" by simp_all
  show ?thesis
    unfolding perturb_corrupt[OF t r'] Let_def op
    using idx g3 ops by simp
qed


section \<open>The loops of the generator\<close>

lemma unique_row_labelled: "unique_row r \<Longrightarrow> labelled_row r"
  by (auto simp: unique_row_def labelled_row_def)

lemma map_of_dict_setitem: "map_of (dict_setitem d k v) = (map_of d)(k \<mapsto> v)"
  by (simp add: dict_setitem_def update_conv')

lemma map_of_dict_update3:
  "map_of (dict_update d [(k1, v1), (k2, v2), (k3, v3)])
     = (map_of d)(k1 \<mapsto> v1, k2 \<mapsto> v2, k3 \<mapsto> v3)"
  by (simp add: dict_update_def map_of_dict_setitem)

lemma dropout_other:
  "k \<notin> set fs \<Longrightarrow> map_of (fst (dropout fs r g)) k = map_of r k"
  by (induction fs arbitrary: r g) (auto simp: map_of_dict_setitem split: prod.splits)

lemma dropout_keeps_key:
  "map_of r k \<noteq> None \<Longrightarrow> map_of (fst (dropout fs r g)) k \<noteq> None"
  by (induction fs arbitrary: r g) (auto simp: map_of_dict_setitem split: prod.splits)

lemma dropout_rng: "snd (dropout fs r g) = sdrop (length fs) g"
  by (induction fs arbitrary: r g) (auto simp: random_random_def split: prod.splits)

lemma unique_record_fields:
  "map_of (fst (unique_record lib (f, g))) ''id'' = Some (PyStr (fst (fake_uuid4 lib f)))"
  "map_of (fst (unique_record lib (f, g))) ''original_id'' = Some (PyStr (fst (fake_uuid4 lib f)))"
  "\<exists>s. map_of (fst (unique_record lib (f, g))) ''name'' = Some (PyStr s)"
  "map_of (fst (unique_record lib (f, g))) ''address'' \<noteq> None"
  by (simp_all add: split_beta dropout_other dropout_keeps_key del: dropout.simps)

lemma unique_record_unique_row: "unique_row (fst (unique_record lib w))"
  by (cases w) (simp add: unique_row_def unique_record_fields del: unique_record.simps)

lemma unique_record_state:
  "snd (unique_record lib (f, g)) =
     (snd (fake_date_of_birth lib (snd (fake_city lib (snd (fake_address lib
        (snd (fake_name lib (snd (fake_uuid4 lib f))))))))), sdrop 3 g)"
  by (simp add: split_beta dropout_rng numeral_3_eq_3 del: dropout.simps)

lemma unique_loop_append:
  "\<exists>new. fst (unique_loop lib k data w) = data @ new \<and> length new = k \<and>
     (\<forall>r\<in>set new. unique_row r)"
proof (induction k arbitrary: data w)
  case 0
  show ?case by simp
next
  case (Suc k)
  obtain rec w1 where u: "unique_record lib w = (rec, w1)" by (cases "unique_record lib w")
  then have ur: "unique_row rec" using unique_record_unique_row[of lib w] by simp
  from Suc.IH[of "data @ [rec]" w1] obtain new where
    n: "fst (unique_loop lib k (data @ [rec]) w1) = (data @ [rec]) @ new" "length new = k"
       "\<forall>r\<in>set new. unique_row r" by blast
  have "fst (unique_loop lib (Suc k) data w) = data @ (rec # new)" using u n(1) by simp
  moreover have "length (rec # new) = Suc k" using n(2) by simp
  moreover have "\<forall>r\<in>set (rec # new). unique_row r" using ur n(3) by simp
  ultimately show ?case by blast
qed


lemma perturb_rng: "perturb x g = Inr (v, g') \<Longrightarrow> \<exists>m. g' = sdrop m g"
proof (cases "falsy x")
  case True
  assume "perturb x g = Inr (v, g')"
  then have "g' = sdrop 0 g" using True by (simp add: perturb_falsy)
  then show ?thesis by blast
next
  case nf: False
  assume p: "perturb x g = Inr (v, g')"
  obtain t where x: "x = PyStr t" and t: "t \<noteq> []"
    using nf by (cases x) (auto simp: falsy_def)
  have s3: "stl (stl (stl g)) = sdrop 3 g" and s4: "stl (stl (stl (stl g))) = sdrop 4 g"
    by (simp_all add: numeral_3_eq_3 numeral_eq_Suc)
  show ?thesis
  proof (cases "3 / 10 < fst (random_random g)")
    case True
    then have "g' = sdrop 1 g" using p nf by (simp add: perturb_pass)
    then show ?thesis by blast
  next
    case False
    have "g' = stl (stl (stl g)) \<or> g' = stl (stl (stl (stl g)))"
      using p unfolding x perturb_corrupt[OF t False] by (auto simp: Let_def split: if_splits)
    then have "g' = sdrop 3 g \<or> g' = sdrop 4 g" using s3 s4 by simp
    then show ?thesis by blast
  qed
qed

lemma dict_getitem_Some: "map_of d k = Some v \<Longrightarrow> dict_getitem d k = Inr v"
  by (simp add: dict_getitem_def)

lemma duplicate_update_ok:
  assumes "labelled_row orig"
  shows "\<exists>dup g'. duplicate_update perturb lib orig (f, g)
            = Inr (dup, (snd (fake_uuid4 lib f), g')) \<and>
          labelled_row dup \<and>
          map_of dup ''id'' = Some (PyStr (fst (fake_uuid4 lib f))) \<and>
          map_of dup ''original_id'' = map_of orig ''original_id'' \<and>
          (\<exists>m. g' = sdrop m g)"
proof -
  from assms obtain s a u where nm: "map_of orig ''name'' = Some (PyStr s)"
    and ad: "map_of orig ''address'' = Some a"
    and oi: "map_of orig ''original_id'' = Some (PyStr u)"
    by (auto simp: labelled_row_def)
  from perturb_result[of "PyStr s" g] obtain s' g1 where
    p1: "perturb (PyStr s) g = Inr (PyStr s', g1)" by auto
  from perturb_rng[OF p1] obtain m1 where m1: "g1 = sdrop m1 g" by blast
  obtain a' g2 where
    p2: "(if \<not> falsy a then perturb a g1 else Inr (PyNone, g1)) = Inr (a', g2)"
    using perturb_result[of a g1] by (cases "falsy a") auto
  have "\<exists>m. g2 = sdrop m g1"
  proof (cases "falsy a")
    case True
    then have "g2 = sdrop 0 g1" using p2 by simp
    then show ?thesis by blast
  next
    case False
    then show ?thesis using p2 perturb_rng[of a g1 a' g2] by simp
  qed
  then obtain m2 where "g2 = sdrop m2 g1" by blast
  then have m: "g2 = sdrop (m1 + m2) g" using m1 by (simp add: add.commute)
  let ?dup = "dict_update orig [(''id'', PyStr (fst (fake_uuid4 lib f))), (''name'', PyStr s'),
      (''address'', a')]"
  have d: "duplicate_update perturb lib orig (f, g) = Inr (?dup, (snd (fake_uuid4 lib f), g2))"
    using p1 p2 by (simp add: split_beta dict_getitem_Some[OF nm] dict_getitem_Some[OF ad])
  have "labelled_row ?dup" using oi
    by (simp add: labelled_row_def map_of_dict_update3)
  moreover have "map_of ?dup ''id'' = Some (PyStr (fst (fake_uuid4 lib f)))"
    by (simp add: map_of_dict_update3)
  moreover have "map_of ?dup ''original_id'' = map_of orig ''original_id''"
    by (simp add: map_of_dict_update3)
  ultimately show ?thesis using d m by blast
qed

lemma duplicate_record_ok:
  assumes ne: "slice_upto data n \<noteq> []"
    and lab: "\<forall>p\<in>set (slice_upto data n). labelled_row p"
  shows "\<exists>dup g'. duplicate_record lib n data (f, g)
            = Inr (dup, (snd (fake_uuid4 lib f), g')) \<and>
          labelled_row dup \<and>
          map_of dup ''id'' = Some (PyStr (fst (fake_uuid4 lib f))) \<and>
          (\<exists>p\<in>set (slice_upto data n). map_of dup ''original_id'' = map_of p ''original_id'') \<and>
          (\<exists>m. g' = sdrop m g)"
proof -
  let ?orig = "slice_upto data n ! (shd g mod length (slice_upto data n))"
  have c: "random_choice (slice_upto data n) g = Inr (?orig, stl g)"
    by (rule random_choice_Inr[OF ne])
  have mem: "?orig \<in> set (slice_upto data n)" using ne by simp
  then have "labelled_row ?orig" using lab by blast
  from duplicate_update_ok[OF this, of lib f "stl g"] obtain dup g1 where
    u: "duplicate_update perturb lib ?orig (f, stl g) = Inr (dup, (snd (fake_uuid4 lib f), g1))"
    and l: "labelled_row dup"
    and i: "map_of dup ''id'' = Some (PyStr (fst (fake_uuid4 lib f)))"
    and o: "map_of dup ''original_id'' = map_of ?orig ''original_id''"
    and m: "\<exists>m. g1 = sdrop m (stl g)" by blast
  let ?fs = "[''address'', ''city'', ''date_of_birth'']"
  let ?dup = "fst (dropout ?fs dup g1)"
  have d: "duplicate_record lib n data (f, g)
      = Inr (?dup, (snd (fake_uuid4 lib f), sdrop (length ?fs) g1))"
    using c u dropout_rng[of ?fs dup g1]
    by (simp add: split_beta del: duplicate_update.simps dropout.simps)
  have "labelled_row ?dup" using l
    unfolding labelled_row_def by (simp add: dropout_other dropout_keeps_key del: dropout.simps)
  moreover have "map_of ?dup ''id'' = Some (PyStr (fst (fake_uuid4 lib f)))"
    using i by (simp add: dropout_other del: dropout.simps)
  moreover have "map_of ?dup ''original_id'' = map_of ?orig ''original_id''"
    using o by (simp add: dropout_other del: dropout.simps)
  moreover from m obtain k where "g1 = sdrop k (stl g)" by blast
  then have "sdrop (length ?fs) g1 = sdrop (Suc k + length ?fs) g"
    by (simp add: add.commute)
  ultimately show ?thesis using d mem by blast
qed


lemma slice_upto_append:
  "0 \<le> n \<Longrightarrow> nat n \<le> length data \<Longrightarrow> slice_upto (data @ xs) n = take (nat n) data"
  by (simp add: slice_upto_def)

lemma duplicate_loop_ok:
  assumes "0 \<le> n" and "nat n \<le> length data"
    and "take (nat n) data \<noteq> []"
    and "\<forall>p\<in>set (take (nat n) data). labelled_row p"
  shows "\<exists>new f' g'. duplicate_loop lib n k data (f, g) = Inr (data @ new, (f', g')) \<and>
          length new = k \<and>
          (\<forall>r\<in>set new. labelled_row r \<and>
             (\<exists>p\<in>set (take (nat n) data). map_of r ''original_id'' = map_of p ''original_id'')) \<and>
          (\<exists>m. g' = sdrop m g)"
  using assms
proof (induction k arbitrary: data f g)
  case 0
  have "\<exists>m. g = sdrop m g" by (rule exI[of _ 0]) simp
  then show ?case by simp
next
  case (Suc k)
  have sl: "slice_upto data n = take (nat n) data"
    using slice_upto_append[OF Suc.prems(1,2), of "[]"] by simp
  from duplicate_record_ok[of data n lib f g] Suc.prems(3,4) sl obtain dup g1 where
    d: "duplicate_record lib n data (f, g) = Inr (dup, (snd (fake_uuid4 lib f), g1))"
    and l: "labelled_row dup"
    and o: "\<exists>p\<in>set (take (nat n) data). map_of dup ''original_id'' = map_of p ''original_id''"
    and m1: "\<exists>m. g1 = sdrop m g" by auto
  have tk: "take (nat n) (data @ [dup]) = take (nat n) data" using Suc.prems(2) by simp
  have "nat n \<le> length (data @ [dup])" using Suc.prems(2) by simp
  from Suc.IH[OF Suc.prems(1) this, of "snd (fake_uuid4 lib f)" g1] Suc.prems(3,4) tk
  obtain new f' g' where
    r: "duplicate_loop lib n k (data @ [dup]) (snd (fake_uuid4 lib f), g1)
          = Inr ((data @ [dup]) @ new, (f', g'))"
    and ln: "length new = k"
    and al: "\<forall>r\<in>set new. labelled_row r \<and>
             (\<exists>p\<in>set (take (nat n) data). map_of r ''original_id'' = map_of p ''original_id'')"
    and m2: "\<exists>m. g' = sdrop m g1" by auto
  have "duplicate_loop lib n (Suc k) data (f, g) = Inr (data @ (dup # new), (f', g'))"
    using d r by (simp del: duplicate_record.simps)
  moreover have "length (dup # new) = Suc k" using ln by simp
  moreover have "\<forall>r\<in>set (dup # new). labelled_row r \<and>
             (\<exists>p\<in>set (take (nat n) data). map_of r ''original_id'' = map_of p ''original_id'')"
    using l o al by simp
  moreover have "\<exists>m. g' = sdrop m g"
  proof -
    from m1 obtain a where "g1 = sdrop a g" by blast
    moreover from m2 obtain b where "g' = sdrop b g1" by blast
    ultimately have "g' = sdrop (a + b) g" by (simp add: add.commute)
    then show ?thesis by blast
  qed
  ultimately show ?case by blast
qed

lemma unique_loop_rng: "snd (snd (unique_loop lib k data (f, g))) = sdrop (3 * k) g"
proof (induction k arbitrary: data f g)
  case 0
  show ?case by simp
next
  case (Suc k)
  obtain rec f1 g1 where u: "unique_record lib (f, g) = (rec, (f1, g1))"
    by (cases "unique_record lib (f, g)") auto
  then have "g1 = sdrop 3 g" using unique_record_state[of lib f g] by simp
  then show ?case using u Suc.IH[of "data @ [rec]" f1 g1]
    by (simp add: add.commute del: unique_record.simps)
qed

lemma generate_data_unfold:
  "generate_data lib n_unique n_duplicates seed w =
     duplicate_loop lib n_unique (nat n_duplicates)
       (fst (unique_loop lib (nat n_unique) [] (Faker_seed lib seed, random_seed lib seed)))
       (snd (unique_loop lib (nat n_unique) [] (Faker_seed lib seed, random_seed lib seed)))"
  by (simp add: generate_data_def split_beta)

lemma generate_data_ok:
  assumes "0 < n_unique"
  shows "\<exists>dups w' m.
      generate_data lib n_unique n_duplicates seed w
        = Inr (fst (unique_loop lib (nat n_unique) []
                 (Faker_seed lib seed, random_seed lib seed)) @ dups, w') \<and>
      length (fst (unique_loop lib (nat n_unique) []
                 (Faker_seed lib seed, random_seed lib seed))) = nat n_unique \<and>
      (\<forall>r\<in>set (fst (unique_loop lib (nat n_unique) []
                 (Faker_seed lib seed, random_seed lib seed))). unique_row r) \<and>
      length dups = nat n_duplicates \<and>
      (\<forall>r\<in>set dups. labelled_row r \<and>
         (\<exists>p\<in>set (fst (unique_loop lib (nat n_unique) []
                 (Faker_seed lib seed, random_seed lib seed))).
            map_of r ''original_id'' = map_of p ''original_id'')) \<and>
      snd w' = sdrop m (random_seed lib seed)"
proof -
  let ?w0 = "(Faker_seed lib seed, random_seed lib seed)"
  let ?u = "unique_loop lib (nat n_unique) [] ?w0"
  let ?uniq = "fst ?u"
  from unique_loop_append[of lib "nat n_unique" "[]" ?w0]
  have len: "length ?uniq = nat n_unique" and ur: "\<forall>r\<in>set ?uniq. unique_row r" by auto
  have a1: "0 \<le> n_unique" using assms by simp
  have a2: "nat n_unique \<le> length ?uniq" using len by simp
  have tk: "take (nat n_unique) ?uniq = ?uniq" using len by simp
  have a3: "take (nat n_unique) ?uniq \<noteq> []" unfolding tk using len assms by auto
  have a4: "\<forall>p\<in>set (take (nat n_unique) ?uniq). labelled_row p"
    unfolding tk using ur unique_row_labelled by blast
  obtain f1 g1 where w1: "snd ?u = (f1, g1)" by (cases "snd ?u")
  have g1: "g1 = sdrop (3 * nat n_unique) (random_seed lib seed)"
    using unique_loop_rng[of lib "nat n_unique" "[]" "Faker_seed lib seed" "random_seed lib seed"] w1
    by simp
  from duplicate_loop_ok[OF a1 a2 a3 a4, of lib "nat n_duplicates" f1 g1]
  obtain new f' g' where
    r: "duplicate_loop lib n_unique (nat n_duplicates) ?uniq (f1, g1) = Inr (?uniq @ new, (f', g'))"
    and ln: "length new = nat n_duplicates"
    and al: "\<forall>r\<in>set new. labelled_row r \<and>
       (\<exists>p\<in>set (take (nat n_unique) ?uniq). map_of r ''original_id'' = map_of p ''original_id'')"
    and m: "\<exists>m. g' = sdrop m g1" by blast
  from m obtain k where "g' = sdrop k g1" by blast
  then have gm: "snd (f', g') = sdrop (3 * nat n_unique + k) (random_seed lib seed)"
    using g1 by (simp add: add.commute)
  have "generate_data lib n_unique n_duplicates seed w = Inr (?uniq @ new, (f', g'))"
    unfolding generate_data_unfold w1 by (rule r)
  then show ?thesis using len ur ln al[unfolded tk] gm by blast
qed

lemma generate_data_nonpositive:
  assumes "n_unique \<le> 0"
  shows "generate_data lib n_unique n_duplicates seed w =
           (if n_duplicates \<le> 0 then Inr ([], (Faker_seed lib seed, random_seed lib seed))
            else Inl IndexError)"
proof (cases "n_duplicates \<le> 0")
  case True
  then show ?thesis using assms by (simp add: generate_data_def)
next
  case False
  then obtain k where k: "nat n_duplicates = Suc k" by (cases "nat n_duplicates") auto
  have "slice_upto ([] :: row list) n_unique = []" by (simp add: slice_upto_def)
  then show ?thesis using assms False k
    by (simp add: generate_data_def random_choice_Nil)
qed

lemma generate_data_rows:
  assumes "generate_data lib n_unique n_duplicates seed w = Inr (rows, w')"
  shows "\<exists>uniq dups. rows = uniq @ dups \<and>
      uniq = fst (unique_loop lib (nat n_unique) [] (Faker_seed lib seed, random_seed lib seed)) \<and>
      length uniq = nat n_unique \<and> length dups = nat n_duplicates \<and>
      (\<forall>r\<in>set uniq. unique_row r) \<and>
      (\<forall>r\<in>set dups. labelled_row r \<and>
         (\<exists>p\<in>set uniq. map_of r ''original_id'' = map_of p ''original_id'')) \<and>
      (\<exists>m. snd w' = sdrop m (random_seed lib seed))"
proof (cases "0 < n_unique")
  case True
  from generate_data_ok[OF True, of lib n_duplicates seed w] assms show ?thesis
    by (elim exE conjE) (simp, blast)
next
  case False
  then have n: "n_unique \<le> 0" by simp
  have d: "n_duplicates \<le> 0" and r: "rows = []"
    and w: "w' = (Faker_seed lib seed, random_seed lib seed)"
    using assms unfolding generate_data_nonpositive[OF n] by (auto split: if_splits)
  have "snd w' = sdrop 0 (random_seed lib seed)" using w by simp
  then have "\<exists>m. snd w' = sdrop m (random_seed lib seed)" by blast
  then show ?thesis using n d r by simp
qed

lemma unique_loop_fresh:
  assumes fr: "fresh_uuids lib issued"
  shows "\<exists>new. fst (unique_loop lib k data (f, g)) = data @ new \<and>
      distinct (map (\<lambda>r. map_of r ''id'') new) \<and>
      (\<forall>r\<in>set new. \<exists>u. map_of r ''id'' = Some (PyStr u) \<and> u \<notin> issued f)"
proof (induction k arbitrary: data f g)
  case 0
  show ?case by simp
next
  case (Suc k)
  let ?u = "fst (fake_uuid4 lib f)"
  let ?f1 = "snd (fake_uuid4 lib f)"
  let ?f2 = "snd (fake_name lib ?f1)"
  let ?f3 = "snd (fake_address lib ?f2)"
  let ?f4 = "snd (fake_city lib ?f3)"
  let ?f5 = "snd (fake_date_of_birth lib ?f4)"
  obtain rec w1 where ur: "unique_record lib (f, g) = (rec, w1)"
    by (cases "unique_record lib (f, g)")
  have w1: "w1 = (?f5, sdrop 3 g)" using ur unique_record_state[of lib f g] by simp
  have rid: "map_of rec ''id'' = Some (PyStr ?u)"
    using ur unique_record_fields(1)[of lib f g] by simp
  have u0: "?u \<notin> issued f" using fr by (simp add: fresh_uuids_def)
  have s1: "insert ?u (issued f) \<subseteq> issued ?f1" using fr by (simp add: fresh_uuids_def)
  have s2: "issued ?f1 \<subseteq> issued ?f2" using fr by (simp add: fresh_uuids_def)
  have s3: "issued ?f2 \<subseteq> issued ?f3" using fr by (simp add: fresh_uuids_def)
  have s4: "issued ?f3 \<subseteq> issued ?f4" using fr by (simp add: fresh_uuids_def)
  have s5: "issued ?f4 \<subseteq> issued ?f5" using fr by (simp add: fresh_uuids_def)
  have sub: "insert ?u (issued f) \<subseteq> issued ?f5" using s1 s2 s3 s4 s5 by blast
  from Suc.IH[of "data @ [rec]" ?f5 "sdrop 3 g"] obtain new where
    n: "fst (unique_loop lib k (data @ [rec]) (?f5, sdrop 3 g)) = (data @ [rec]) @ new"
    and dn: "distinct (map (\<lambda>r. map_of r ''id'') new)"
    and fn: "\<forall>r\<in>set new. \<exists>u. map_of r ''id'' = Some (PyStr u) \<and> u \<notin> issued ?f5"
    by blast
  have e: "fst (unique_loop lib (Suc k) data (f, g)) = data @ (rec # new)"
    using ur w1 n by (simp del: unique_record.simps)
  have notin: "map_of rec ''id'' \<notin> set (map (\<lambda>r. map_of r ''id'') new)"
  proof
    assume "map_of rec ''id'' \<in> set (map (\<lambda>r. map_of r ''id'') new)"
    then obtain r where r: "r \<in> set new" and "map_of r ''id'' = Some (PyStr ?u)"
      using rid by auto
    with fn have "?u \<notin> issued ?f5" by auto
    with sub show False by blast
  qed
  have d: "distinct (map (\<lambda>r. map_of r ''id'') (rec # new))" using notin dn by simp
  have "\<forall>r\<in>set (rec # new). \<exists>u. map_of r ''id'' = Some (PyStr u) \<and> u \<notin> issued f"
    using rid u0 fn sub by auto
  with e d show ?case by blast
qed

section \<open>The concrete library at work\<close>

lemma demo_run: "generate_data demo 2 1 42 w = Inr (demo_rows, (3, sconst 42))"
proof -
  have n: "nat 2 = Suc (Suc 0)" "nat 1 = Suc 0" by simp_all
  show ?thesis
    unfolding generate_data_def n
    by (simp add: demo_def demo_rows_def perturb_def falsy_def list_index_def list_getitem_def
        list_setitem_def slice_upto_def dict_getitem_def dict_setitem_def dict_update_def
        replace_newline_def random_random_def random_choice_def random_randint_def)
qed

lemma demo_fresh: "fresh_uuids demo demo_issued"
proof -
  have inj: "(''id-'' @ replicate i CHR ''x'' = ''id-'' @ replicate j CHR ''x'') = (i = j)" for i j
    by (auto dest: arg_cong[of _ _ length])
  show ?thesis
    unfolding fresh_uuids_def
    by (auto simp: demo_def demo_issued_def inj lessThan_Suc)
qed

section \<open>Properties of the corruptor\<close>

text \<open>
  C8. For every state of the random stream, \<^verbatim>\<open>perturb\<close> returns \<^verbatim>\<open>None\<close> for
  \<^verbatim>\<open>None\<close> and the empty string for the empty string, and the stream is left as it
  was: no draw is consumed.
\<close>

theorem perturb_noop:
  "perturb PyNone g = Inr (PyNone, g) \<and> perturb (PyStr []) g = Inr (PyStr [], g)"
  by (simp add: perturb_falsy falsy_def)


text \<open>
  C6. For a non-empty text and a state of the random stream in which the first draw does
  not exceed \<open>0.3\<close> (the corrupt branch), \<^verbatim>\<open>perturb\<close> returns a string that differs from
  the text by at most one operation at one position (a delete, an insert, a replace or a
  swap of neighbours), and whose length differs from the length of the text by at most 1.
\<close>

theorem perturb_one_edit:
  assumes "t \<noteq> []" and "\<not> 3 / 10 < fst (random_random g)"
  shows "\<exists>t' g'. perturb (PyStr t) g = Inr (PyStr t', g') \<and> one_edit t t' \<and>
           length t' \<le> length t + 1 \<and> length t \<le> length t' + 1"
proof -
  let ?i = "shd (stl (stl g)) mod length t"
  let ?c = "ascii_letters ! (shd (stl (stl (stl g))) mod length ascii_letters)"
  let ?j = "if Suc ?i < length t then Suc ?i else ?i - 1"
  have i: "?i < length t" using assms(1) by simp
  then have ibex: "?i \<in> {..<length t}" by simp
  have "ascii_letters \<noteq> []" by (simp add: ascii_letters_def)
  then have c: "?c \<in> set ascii_letters" by simp
  have k: "shd (stl g) mod 4 < 4" by simp
  then consider "shd (stl g) mod 4 = 0" | "shd (stl g) mod 4 = 1" | "shd (stl g) mod 4 = 2"
    | "shd (stl g) mod 4 = 3" by linarith
  then show ?thesis
  proof cases
    case 1
    then have "perturb (PyStr t) g = Inr (PyStr (take ?i t @ drop (Suc ?i) t), stl (stl (stl g)))"
      by (simp add: perturb_corrupt[OF assms] Let_def)
    moreover have "one_edit t (take ?i t @ drop (Suc ?i) t)"
      unfolding one_edit_def using ibex by blast
    ultimately show ?thesis using i by auto
  next
    case 2
    then have "perturb (PyStr t) g = Inr (PyStr (take ?i t @ ?c # drop ?i t), stl (stl (stl (stl g))))"
      by (simp add: perturb_corrupt[OF assms] Let_def)
    moreover have "one_edit t (take ?i t @ ?c # drop ?i t)"
      unfolding one_edit_def using ibex c by blast
    ultimately show ?thesis using i by auto
  next
    case 3
    then have "perturb (PyStr t) g = Inr (PyStr (t[?i := ?c]), stl (stl (stl (stl g))))"
      by (simp add: perturb_corrupt[OF assms] Let_def)
    moreover have "one_edit t (t[?i := ?c])"
      unfolding one_edit_def using ibex c by blast
    ultimately show ?thesis by auto
  next
    case 4
    show ?thesis
    proof (cases "1 < length t")
      case False
      then have "perturb (PyStr t) g = Inr (PyStr t, stl (stl (stl g)))"
        using 4 by (simp add: perturb_corrupt[OF assms] Let_def)
      then show ?thesis by (auto simp: one_edit_def)
    next
      case True
      then have p: "perturb (PyStr t) g = Inr (PyStr (t[?i := t ! ?j, ?j := t ! ?i]), stl (stl (stl g)))"
        using 4 by (simp add: perturb_corrupt[OF assms] Let_def)
      have "one_edit t (t[?i := t ! ?j, ?j := t ! ?i])"
      proof (cases "Suc ?i < length t")
        case s: True
        then show ?thesis unfolding one_edit_def using ibex by auto
      next
        case s: False
        then have pos: "0 < ?i" using True i by linarith
        then have e: "Suc (?i - 1) = ?i" by simp
        have "?i - 1 \<in> {..<length t}" using i by simp
        moreover have "t[?i := t ! (?i - 1), ?i - 1 := t ! ?i]
            = t[?i - 1 := t ! Suc (?i - 1), Suc (?i - 1) := t ! (?i - 1)]"
          unfolding e using pos by (simp add: list_update_swap)
        moreover have "Suc (?i - 1) < length t" using i e by simp
        ultimately show ?thesis unfolding one_edit_def using s by auto
      qed
      with p show ?thesis by auto
    qed
  qed
qed

theorem perturb_one_edit_witness:
  "perturb (PyStr ''Ann'') (0 ## 1 ## 2 ## 27 ## sconst 0) = Inr (PyStr ''AnBn'', sconst 0) \<and>
   one_edit ''Ann'' ''AnBn'' \<and>
   length ''AnBn'' \<le> length ''Ann'' + 1 \<and> length ''Ann'' \<le> length ''AnBn'' + 1"
proof -
  let ?g = "0 ## 1 ## 2 ## 27 ## sconst 0"
  have h1: "''Ann'' \<noteq> []" by simp
  have h2: "\<not> 3 / 10 < fst (random_random ?g)"
    by (simp add: random_random_def)
  from perturb_one_edit[OF h1 h2] obtain t' g' where
    p: "perturb (PyStr ''Ann'') ?g = Inr (PyStr t', g')" and e: "one_edit ''Ann'' t'" and
    l: "length t' \<le> length ''Ann'' + 1" "length ''Ann'' \<le> length t' + 1"
    by blast
  have v: "perturb (PyStr ''Ann'') ?g = Inr (PyStr ''AnBn'', sconst 0)"
    by (simp add: perturb_def falsy_def random_random_def random_choice_def random_randint_def
        list_insert_def ascii_letters_def)
  from p v have "t' = ''AnBn''" by simp
  with e l v show ?thesis by simp
qed


text \<open>
  C7. \<^verbatim>\<open>perturb\<close> on a string of one character returns, in every state of the random
  stream and so for each of the four operations. When the draws select the corrupt branch
  and the operation \<^verbatim>\<open>swap\<close>: on a string of one character the text is returned as it
  is, and at the last position of a longer string the last character is exchanged with
  the one before it.
\<close>

theorem perturb_single_char_safe:
  "(\<exists>v g'. perturb (PyStr [c]) g = Inr (v, g')) \<and>
   (\<forall>r g1 g2 idx g3.
      random_random g = (r, g1) \<and> \<not> 3 / 10 < r \<and>
      random_choice [''del'', ''ins'', ''rep'', ''swap''] g1 = Inr (''swap'', g2) \<and>
      random_randint 0 (int (length t) - 1) g2 = Inr (idx, g3) \<longrightarrow>
      (length t = 1 \<longrightarrow> perturb (PyStr t) g = Inr (PyStr t, g3)) \<and>
      (1 < length t \<and> idx = int (length t) - 1 \<longrightarrow>
         perturb (PyStr t) g =
           Inr (PyStr (t[length t - 1 := t ! (length t - 2),
                         length t - 2 := t ! (length t - 1)]), g3)))"
proof (intro conjI allI impI)
  from perturb_result[of "PyStr [c]" g]
  obtain v g' where "perturb (PyStr [c]) g = Inr (v, g')" by (elim exE conjE)
  then show "\<exists>v g'. perturb (PyStr [c]) g = Inr (v, g')" by (intro exI)
next
  fix r g1 g2 idx g3
  assume h: "random_random g = (r, g1) \<and> \<not> 3 / 10 < r \<and>
      random_choice [''del'', ''ins'', ''rep'', ''swap''] g1 = Inr (''swap'', g2) \<and>
      random_randint 0 (int (length t) - 1) g2 = Inr (idx, g3)"
  note h1 = h[THEN conjunct1] and h2 = h[THEN conjunct2, THEN conjunct1]
    and h3 = h[THEN conjunct2, THEN conjunct2, THEN conjunct1]
    and h4 = h[THEN conjunct2, THEN conjunct2, THEN conjunct2]
  assume one: "length t = 1"
  then have t: "t \<noteq> []" by auto
  have nl: "\<not> 1 < length t" using one by simp
  note sd = swap_drawn[OF t h1 h2 h3 h4, THEN conjunct2, THEN conjunct2]
  show "perturb (PyStr t) g = Inr (PyStr t, g3)"
    using sd by (simp only: nl if_False)
next
  fix r g1 g2 idx g3
  assume h: "random_random g = (r, g1) \<and> \<not> 3 / 10 < r \<and>
      random_choice [''del'', ''ins'', ''rep'', ''swap''] g1 = Inr (''swap'', g2) \<and>
      random_randint 0 (int (length t) - 1) g2 = Inr (idx, g3)"
  note h1 = h[THEN conjunct1] and h2 = h[THEN conjunct2, THEN conjunct1]
    and h3 = h[THEN conjunct2, THEN conjunct2, THEN conjunct1]
    and h4 = h[THEN conjunct2, THEN conjunct2, THEN conjunct2]
  assume l: "1 < length t \<and> idx = int (length t) - 1"
  then have t: "t \<noteq> []" by auto
  let ?i = "shd (stl (stl g)) mod length t"
  note sd1 = swap_drawn[OF t h1 h2 h3 h4, THEN conjunct1]
  note sd = swap_drawn[OF t h1 h2 h3 h4, THEN conjunct2, THEN conjunct2]
  have i: "?i = length t - 1" using sd1 l by linarith
  have ns: "\<not> Suc (length t - 1) < length t" by simp
  have m: "length t - 1 - 1 = length t - 2" by simp
  have lt: "1 < length t" using l by simp
  show "perturb (PyStr t) g =
           Inr (PyStr (t[length t - 1 := t ! (length t - 2),
                         length t - 2 := t ! (length t - 1)]), g3)"
    using sd unfolding i by (simp only: ns if_False m lt if_True)
qed

theorem perturb_single_char_safe_witness:
  "perturb (PyStr ''a'') (0 ## 3 ## 0 ## sconst 0) = Inr (PyStr ''a'', sconst 0) \<and>
   perturb (PyStr ''abc'') (0 ## 3 ## 2 ## sconst 0) = Inr (PyStr ''acb'', sconst 0)"
proof -
  have a: "random_random (0 ## 3 ## 0 ## sconst 0) = (0, 3 ## 0 ## sconst 0) \<and>
      \<not> 3 / 10 < (0::rat) \<and>
      random_choice [''del'', ''ins'', ''rep'', ''swap''] (3 ## 0 ## sconst 0)
        = Inr (''swap'', 0 ## sconst 0) \<and>
      random_randint 0 (int (length ''a'') - 1) (0 ## sconst 0) = Inr (0, sconst 0)"
    by (simp add: random_random_def random_choice_def random_randint_def)
  have b: "random_random (0 ## 3 ## 2 ## sconst 0) = (0, 3 ## 2 ## sconst 0) \<and>
      \<not> 3 / 10 < (0::rat) \<and>
      random_choice [''del'', ''ins'', ''rep'', ''swap''] (3 ## 2 ## sconst 0)
        = Inr (''swap'', 2 ## sconst 0) \<and>
      random_randint 0 (int (length ''abc'') - 1) (2 ## sconst 0) = Inr (2, sconst 0)"
    by (simp add: random_random_def random_choice_def random_randint_def)
  have la: "length ''a'' = 1" by simp
  have lb: "1 < length ''abc'' \<and> (2::int) = int (length ''abc'') - 1" by simp
  note ta = perturb_single_char_safe[of "CHR ''a''" "0 ## 3 ## 0 ## sconst 0" "''a''",
      THEN conjunct2, THEN spec, THEN spec, THEN spec, THEN spec, THEN spec, THEN mp, OF a,
      THEN conjunct1, THEN mp, OF la]
  note tb = perturb_single_char_safe[of "CHR ''a''" "0 ## 3 ## 2 ## sconst 0" "''abc''",
      THEN conjunct2, THEN spec, THEN spec, THEN spec, THEN spec, THEN spec, THEN mp, OF b,
      THEN conjunct2, THEN mp, OF lb]
  show ?thesis using ta tb by simp
qed


section \<open>Properties of the generator\<close>

text \<open>
  C1. For a positive \<open>n_unique\<close>, a non-negative \<open>n_duplicates\<close> and any seed,
  \<^verbatim>\<open>generate_data\<close> returns, and the dataset it returns has exactly
  \<open>n_unique + n_duplicates\<close> rows.
\<close>

theorem generate_data_count:
  assumes "0 < n_unique" and "0 \<le> n_duplicates"
  shows "\<exists>rows w'. generate_data lib n_unique n_duplicates seed w = Inr (rows, w') \<and>
           int (length rows) = n_unique + n_duplicates"
proof -
  from generate_data_ok[OF assms(1), of lib n_duplicates seed w] obtain dups w' where
    g: "generate_data lib n_unique n_duplicates seed w
        = Inr (fst (unique_loop lib (nat n_unique) []
                 (Faker_seed lib seed, random_seed lib seed)) @ dups, w')"
    and lu: "length (fst (unique_loop lib (nat n_unique) []
                 (Faker_seed lib seed, random_seed lib seed))) = nat n_unique"
    and ld: "length dups = nat n_duplicates" by blast
  have "int (length (fst (unique_loop lib (nat n_unique) []
                 (Faker_seed lib seed, random_seed lib seed)) @ dups)) = n_unique + n_duplicates"
    using lu ld assms by simp
  with g show ?thesis by blast
qed

theorem generate_data_count_witness:
  "generate_data demo 2 1 42 (7, sconst 5) = Inr (demo_rows, (3, sconst 42)) \<and>
   int (length demo_rows) = 2 + 1"
proof -
  have p: "(0::int) < 2" and d: "(0::int) \<le> 1" by simp_all
  from generate_data_count[OF p d, of demo 42 "(7, sconst 5)"] obtain rows w' where
    g: "generate_data demo 2 1 42 (7, sconst 5) = Inr (rows, w')"
    and l: "int (length rows) = 2 + 1" by blast
  from g have "rows = demo_rows" unfolding demo_run by simp
  with l show ?thesis unfolding demo_run by simp
qed

text \<open>
  C2, as the code has it. The generator validates nothing and no statement raises an
  \<open>InvalidConfiguration\<close> error. With \<open>n_unique \<le> 0\<close> and \<open>n_duplicates > 0\<close> the call
  fails with the \<^verbatim>\<open>IndexError\<close> of \<^verbatim>\<open>random.choice\<close> on the empty pool, before any
  duplicate is built. With \<open>n_duplicates \<le> 0\<close> the call never fails, whatever the sign of
  the counts: it returns the rows of the first loop, none for \<open>n_unique \<le> 0\<close>.
\<close>

theorem generate_data_degenerate:
  "(n_unique \<le> 0 \<and> 0 < n_duplicates \<longrightarrow>
      generate_data lib n_unique n_duplicates seed w = Inl IndexError) \<and>
   (n_duplicates \<le> 0 \<longrightarrow>
      (\<exists>rows w'. generate_data lib n_unique n_duplicates seed w = Inr (rows, w') \<and>
         length rows = nat n_unique))"
proof (intro conjI impI)
  assume "n_unique \<le> 0 \<and> 0 < n_duplicates"
  then show "generate_data lib n_unique n_duplicates seed w = Inl IndexError"
    by (simp add: generate_data_nonpositive)
next
  assume d: "n_duplicates \<le> 0"
  let ?u = "unique_loop lib (nat n_unique) [] (Faker_seed lib seed, random_seed lib seed)"
  from unique_loop_append[of lib "nat n_unique" "[]" "(Faker_seed lib seed, random_seed lib seed)"]
  have l: "length (fst ?u) = nat n_unique" by auto
  have "generate_data lib n_unique n_duplicates seed w = Inr (fst ?u, snd ?u)"
    using d by (simp add: generate_data_unfold)
  with l show "\<exists>rows w'. generate_data lib n_unique n_duplicates seed w = Inr (rows, w') \<and>
         length rows = nat n_unique" by blast
qed

theorem generate_data_degenerate_witness:
  "generate_data demo 0 5 1 (7, sconst 5) = Inl IndexError \<and>
   (\<exists>rows w'. generate_data demo 2 (- 1) 42 (7, sconst 5) = Inr (rows, w') \<and>
      length rows = nat 2)"
proof -
  have a: "(0::int) \<le> 0 \<and> (0::int) < 5" by simp
  have b: "(- 1::int) \<le> 0" by simp
  note t1 = generate_data_degenerate[of 0 5 demo 1 "(7, sconst 5)", THEN conjunct1, THEN mp, OF a]
  note t2 = generate_data_degenerate[of 2 "- 1" demo 42 "(7, sconst 5)", THEN conjunct2, THEN mp, OF b]
  show ?thesis using t1 t2 by (intro conjI)
qed

text \<open>
  C2, as the claim states it, fails: \<^verbatim>\<open>generate_data(0, 5, seed=1)\<close> fails with
  \<^verbatim>\<open>IndexError\<close>, which is not an \<open>InvalidConfiguration\<close> error, and
  \<^verbatim>\<open>generate_data(2, -1, seed=42)\<close>, with a negative count, does not fail.
\<close>

theorem generate_data_invalid_configuration_counterexample:
  "generate_data demo 0 5 1 (7, sconst 5) = Inl IndexError \<and>
   generate_data demo 0 5 1 (7, sconst 5) \<noteq> Inl InvalidConfiguration \<and>
   \<not> isl (generate_data demo 2 (- 1) 42 (7, sconst 5))"
proof -
  have n: "nat 5 = Suc (Suc (Suc (Suc (Suc 0))))" "nat 2 = Suc (Suc 0)" by simp_all
  have a: "generate_data demo 0 5 1 (7, sconst 5) = Inl IndexError"
    unfolding generate_data_def n
    by (simp add: demo_def slice_upto_def random_choice_def)
  have b: "\<not> isl (generate_data demo 2 (- 1) 42 (7, sconst 5))"
    unfolding generate_data_def n
    by (simp add: demo_def split_beta)
  show ?thesis using a b by simp
qed

text \<open>
  C10. Every row of the dataset that \<^verbatim>\<open>generate_data\<close> returns has a string under
  \<^verbatim>\<open>name\<close>: the dropout of both loops leaves the name as it is, and the corruptor turns
  a string into a string.
\<close>

theorem name_never_absent:
  assumes "generate_data lib n_unique n_duplicates seed w = Inr (rows, w')"
  shows "\<forall>r\<in>set rows. \<exists>s. map_of r ''name'' = Some (PyStr s)"
proof -
  from generate_data_rows[OF assms] obtain uniq dups where
    r: "rows = uniq @ dups" and u: "\<forall>r\<in>set uniq. unique_row r"
    and d: "\<forall>r\<in>set dups. labelled_row r" by blast
  show ?thesis unfolding r using u d
    by (auto simp: unique_row_def labelled_row_def)
qed

theorem name_never_absent_witness:
  "generate_data demo 2 1 42 (7, sconst 5) = Inr (demo_rows, (3, sconst 42)) \<and>
   map (\<lambda>r. map_of r ''name'') demo_rows
     = [Some (PyStr ''Ann Lee''), Some (PyStr ''Ann Lee''), Some (PyStr ''An nLee'')] \<and>
   (\<exists>s. map_of (demo_rows ! 2) ''name'' = Some (PyStr s))"
proof -
  have g: "generate_data demo 2 1 42 (7, sconst 5) = Inr (demo_rows, (3, sconst 42))"
    by (rule demo_run)
  have m: "demo_rows ! 2 \<in> set demo_rows" by (simp add: demo_rows_def)
  from name_never_absent[OF g] m
  have "\<exists>s. map_of (demo_rows ! 2) ''name'' = Some (PyStr s)" by blast
  moreover have "map (\<lambda>r. map_of r ''name'') demo_rows
     = [Some (PyStr ''Ann Lee''), Some (PyStr ''Ann Lee''), Some (PyStr ''An nLee'')]"
    by (simp add: demo_rows_def)
  ultimately show ?thesis using g by simp
qed

text \<open>
  C4. In a dataset that \<^verbatim>\<open>generate_data\<close> returns, the first \<open>n_unique\<close> rows exist, each
  of them carries one identifier under \<^verbatim>\<open>id\<close> and under \<^verbatim>\<open>original_id\<close>, and, when the
  provider hands out fresh identifiers, their \<^verbatim>\<open>id\<close> values are pairwise distinct.
\<close>

theorem unique_self_reference:
  assumes "fresh_uuids lib issued"
    and "generate_data lib n_unique n_duplicates seed w = Inr (rows, w')"
  shows "nat n_unique \<le> length rows \<and>
    (\<forall>i<nat n_unique. \<exists>u. map_of (rows ! i) ''id'' = Some (PyStr u) \<and>
        map_of (rows ! i) ''original_id'' = Some (PyStr u)) \<and>
    distinct (map (\<lambda>r. map_of r ''id'') (take (nat n_unique) rows))"
proof -
  let ?w0 = "(Faker_seed lib seed, random_seed lib seed)"
  from generate_data_rows[OF assms(2)] obtain uniq dups where
    r: "rows = uniq @ dups"
    and u: "uniq = fst (unique_loop lib (nat n_unique) [] ?w0)"
    and l: "length uniq = nat n_unique"
    and ur: "\<forall>r\<in>set uniq. unique_row r" by blast
  have tk: "take (nat n_unique) rows = uniq" using r l by simp
  from unique_loop_fresh[OF assms(1), of "nat n_unique" "[]" "Faker_seed lib seed" "random_seed lib seed"]
  have d: "distinct (map (\<lambda>r. map_of r ''id'') uniq)" unfolding u by auto
  have "\<exists>u. map_of (rows ! i) ''id'' = Some (PyStr u) \<and>
        map_of (rows ! i) ''original_id'' = Some (PyStr u)" if "i < nat n_unique" for i
  proof -
    have "rows ! i = uniq ! i" using that l r by (simp add: nth_append)
    moreover have "uniq ! i \<in> set uniq" using that l by simp
    ultimately have "unique_row (rows ! i)" using ur by simp
    then show ?thesis unfolding unique_row_def by blast
  qed
  moreover have "nat n_unique \<le> length rows" using r l by simp
  ultimately show ?thesis using d tk by simp
qed

theorem unique_self_reference_witness:
  "fresh_uuids demo demo_issued \<and>
   generate_data demo 2 1 42 (7, sconst 5) = Inr (demo_rows, (3, sconst 42)) \<and>
   nat 2 \<le> length demo_rows \<and>
   map_of (demo_rows ! 1) ''id'' = Some (PyStr ''id-x'') \<and>
   map_of (demo_rows ! 1) ''original_id'' = Some (PyStr ''id-x'') \<and>
   distinct (map (\<lambda>r. map_of r ''id'') (take (nat 2) demo_rows))"
proof -
  have g: "generate_data demo 2 1 42 (7, sconst 5) = Inr (demo_rows, (3, sconst 42))"
    by (rule demo_run)
  note t = unique_self_reference[OF demo_fresh g]
  note t1 = t[THEN conjunct1] and t3 = t[THEN conjunct2, THEN conjunct2]
  have h1: "map_of (demo_rows ! 1) ''id'' = Some (PyStr ''id-x'')"
    and h2: "map_of (demo_rows ! 1) ''original_id'' = Some (PyStr ''id-x'')"
    by (simp_all add: demo_rows_def)
  show ?thesis by (intro conjI demo_fresh g t1 t3 h1 h2)
qed





text \<open>
  C9. When the sampled record has \<^verbatim>\<open>None\<close> under \<^verbatim>\<open>address\<close>, the update of lines 103
  to 108 leaves \<^verbatim>\<open>None\<close> under \<^verbatim>\<open>address\<close> in the duplicate, before the dropout loop
  runs, and the address is not given to the corruptor: whatever the corruptor is, the
  update succeeds as soon as the corruption of the name does, and the state of the random
  stream after the update is the state in which the corruption of the name left it.
\<close>

theorem duplicate_address_null_safe:
  assumes "map_of orig ''address'' = Some PyNone"
    and "map_of orig ''name'' = Some nm"
    and "corrupt nm g = Inr (nm', g1)"
  shows "\<exists>dup. duplicate_update corrupt lib orig (f, g)
             = Inr (dup, (snd (fake_uuid4 lib f), g1)) \<and>
           map_of dup ''address'' = Some PyNone"
proof -
  let ?dup = "dict_update orig
      [(''id'', PyStr (fst (fake_uuid4 lib f))), (''name'', nm'), (''address'', PyNone)]"
  have "duplicate_update corrupt lib orig (f, g) = Inr (?dup, (snd (fake_uuid4 lib f), g1))"
    using assms(3)
    by (simp add: split_beta dict_getitem_Some[OF assms(1)] dict_getitem_Some[OF assms(2)]
        falsy_def)
  moreover have "map_of ?dup ''address'' = Some PyNone"
    by (simp add: map_of_dict_update3)
  ultimately show ?thesis by blast
qed

theorem duplicate_address_null_safe_witness:
  "strict_perturb PyNone (sconst 0) = Inl ValueError \<and>
   (\<exists>dup. duplicate_update strict_perturb demo
           [(''id'', PyStr ''id-''), (''original_id'', PyStr ''id-''), (''name'', PyStr ''Ann Lee''),
            (''address'', PyNone), (''city'', PyStr ''Springfield''),
            (''date_of_birth'', PyStr ''1990-01-01'')]
           (1, 4503599627370496 ## sconst 0)
         = Inr (dup, (snd (fake_uuid4 demo 1), sconst 0)) \<and>
       map_of dup ''address'' = Some PyNone)"
proof -
  let ?orig = "[(''id'', PyStr ''id-''), (''original_id'', PyStr ''id-''),
            (''name'', PyStr ''Ann Lee''),
            (''address'', PyNone), (''city'', PyStr ''Springfield''),
            (''date_of_birth'', PyStr ''1990-01-01'')]"
  have a: "map_of ?orig ''address'' = Some PyNone" by simp
  have n: "map_of ?orig ''name'' = Some (PyStr ''Ann Lee'')" by simp
  have c: "strict_perturb (PyStr ''Ann Lee'') (4503599627370496 ## sconst 0)
      = Inr (PyStr ''Ann Lee'', sconst 0)"
    by (simp add: strict_perturb_def perturb_def falsy_def random_random_def)
  have s: "strict_perturb PyNone (sconst 0) = Inl ValueError"
    by (simp add: strict_perturb_def)
  note t = duplicate_address_null_safe[of ?orig "PyStr ''Ann Lee''" strict_perturb
      "4503599627370496 ## sconst 0" "PyStr ''Ann Lee''" "sconst 0" demo 1, OF a n c]
  show ?thesis by (intro conjI s t)
qed

end
